theory Spec2Isabelle
  imports Complex_Main "HOL-Library.Log_Nat"
begin

section \<open>Python floats\<close>

text \<open>
  The program (\<^verbatim>\<open>sma_cross_1.py\<close>) computes the order size with Python floats: IEEE 754
  double precision, every operation rounded to the nearest double, ties to even. A float is
  modelled by the real number it denotes, or it is one of the infinities or NaN; the sign
  of a zero is not modelled (the program never divides by a zero without raising, and
  \<^verbatim>\<open>int\<close> and the comparisons do not see the sign). Python integers are \<^typ>\<open>int\<close>.
\<close>

datatype pyfloat = Fin real | PInf | NInf | NaN

text \<open>The exceptions that the arithmetic of \<^verbatim>\<open>SmaCross.next\<close> can raise.\<close>

datatype py_error = ZeroDivisionError | OverflowError | ValueError

text \<open>
  The binary exponent of a positive real: \<open>2 powi (expo x) \<le> x < 2 powi (expo x + 1)\<close>,
  computed from the bit length of the integer part (of the reciprocal below 1).
\<close>

definition expo :: "real \<Rightarrow> int" where
  "expo x = (if 1 \<le> x then bitlen \<lfloor>x\<rfloor> - 1 else - bitlen (\<lceil>1 / x\<rceil> - 1))"

text \<open>Rounding to the nearest integer, a tie to the even one.\<close>

definition round_half_even :: "real \<Rightarrow> int" where
  "round_half_even y =
     (let k = \<lfloor>y\<rfloor>; r = y - real_of_int k
      in if r < 1 / 2 then k else if 1 / 2 < r then k + 1 else if even k then k else k + 1)"

text \<open>
  Rounding a real to double precision: 53 significant bits, the least exponent of the last
  bit -1074 (subnormal numbers), and an infinity when the rounded value reaches
  \<open>2 powi 1024\<close>.
\<close>

definition round_double :: "real \<Rightarrow> pyfloat" where
  "round_double x =
     (if x = 0 then Fin 0
      else
        let a = \<bar>x\<bar>;
            q = max (expo a - 52) (- 1074);
            y = real_of_int (round_half_even (a / 2 powi q)) * 2 powi q
        in if 2 powi 1024 \<le> y then (if 0 < x then PInf else NInf)
           else Fin (if 0 < x then y else - y))"

text \<open>
  A decimal literal of the source or of the command line, such as \<^verbatim>\<open>0.3\<close>: the double
  nearest to it.
\<close>

definition dbl :: "real \<Rightarrow> pyfloat" where
  "dbl x = round_double x"

text \<open>Float multiplication \<^verbatim>\<open>x * y\<close>.\<close>

fun fmul :: "pyfloat \<Rightarrow> pyfloat \<Rightarrow> pyfloat" where
  "fmul NaN y = NaN"
| "fmul x NaN = NaN"
| "fmul (Fin a) (Fin b) = round_double (a * b)"
| "fmul (Fin a) PInf = (if a = 0 then NaN else if 0 < a then PInf else NInf)"
| "fmul (Fin a) NInf = (if a = 0 then NaN else if 0 < a then NInf else PInf)"
| "fmul PInf (Fin b) = (if b = 0 then NaN else if 0 < b then PInf else NInf)"
| "fmul NInf (Fin b) = (if b = 0 then NaN else if 0 < b then NInf else PInf)"
| "fmul PInf PInf = PInf"
| "fmul PInf NInf = NInf"
| "fmul NInf PInf = NInf"
| "fmul NInf NInf = PInf"

text \<open>
  Float division \<^verbatim>\<open>x / y\<close>: Python raises \<^verbatim>\<open>ZeroDivisionError\<close> on a zero divisor,
  whatever the dividend.
\<close>

fun fdiv :: "pyfloat \<Rightarrow> pyfloat \<Rightarrow> py_error + pyfloat" where
  "fdiv x (Fin b) =
     (if b = 0 then Inl ZeroDivisionError
      else case x of
             Fin a \<Rightarrow> Inr (round_double (a / b))
           | PInf \<Rightarrow> Inr (if 0 < b then PInf else NInf)
           | NInf \<Rightarrow> Inr (if 0 < b then NInf else PInf)
           | NaN \<Rightarrow> Inr NaN)"
| "fdiv x NaN = Inr NaN"
| "fdiv x PInf = (case x of Fin a \<Rightarrow> Inr (Fin 0) | _ \<Rightarrow> Inr NaN)"
| "fdiv x NInf = (case x of Fin a \<Rightarrow> Inr (Fin 0) | _ \<Rightarrow> Inr NaN)"

text \<open>
  Python's \<^verbatim>\<open>int(x)\<close> on a float: truncation towards zero, \<^verbatim>\<open>OverflowError\<close> on an
  infinity and \<^verbatim>\<open>ValueError\<close> on NaN.
\<close>

fun py_int :: "pyfloat \<Rightarrow> py_error + int" where
  "py_int (Fin x) = Inr (if 0 \<le> x then \<lfloor>x\<rfloor> else \<lceil>x\<rceil>)"
| "py_int PInf = Inl OverflowError"
| "py_int NInf = Inl OverflowError"
| "py_int NaN = Inl ValueError"

text \<open>The comparisons \<^verbatim>\<open>x > 0\<close> and \<^verbatim>\<open>x < 0\<close> of a float: false on NaN.\<close>

fun gt0 :: "pyfloat \<Rightarrow> bool" where
  "gt0 (Fin x) = (0 < x)"
| "gt0 PInf = True"
| "gt0 NInf = False"
| "gt0 NaN = False"

fun lt0 :: "pyfloat \<Rightarrow> bool" where
  "lt0 (Fin x) = (x < 0)"
| "lt0 PInf = False"
| "lt0 NInf = True"
| "lt0 NaN = False"

section \<open>The strategy \<^verbatim>\<open>SmaCross\<close>\<close>

text \<open>
  \<^verbatim>\<open>params = dict(pfast=10, pslow=30, percent=0.3)\<close>
\<close>

record params =
  pfast :: int
  pslow :: int
  percent :: pyfloat

definition SmaCross_params :: params where
  "SmaCross_params = \<lparr>pfast = 10, pslow = 30, percent = dbl (3 / 10)\<rparr>"

text \<open>
  What \<^verbatim>\<open>next\<close> hands to the framework: \<^verbatim>\<open>self.buy(size=size)\<close> or
  \<^verbatim>\<open>self.sell(size=self.position.size)\<close>.
\<close>

datatype order = Buy int | Sell int

text \<open>
  Lines 29-31 of \<^verbatim>\<open>next\<close>:
  \<^verbatim>\<open>size = int((equity * self.p.percent) / price)\<close>, in float arithmetic: the product is
  rounded, then the quotient, then \<^verbatim>\<open>int\<close> truncates.
\<close>

definition next_size :: "pyfloat \<Rightarrow> pyfloat \<Rightarrow> pyfloat \<Rightarrow> py_error + int" where
  "next_size equity price fraction =
     (case fdiv (fmul equity fraction) price of
        Inl e \<Rightarrow> Inl e
      | Inr q \<Rightarrow> py_int q)"

text \<open>
  \<^verbatim>\<open>SmaCross.next\<close>, lines 28-41. Its inputs are what the method reads from the
  framework on the current bar: the size of \<^verbatim>\<open>self.position\<close> (the position is falsy
  exactly when its size is zero), the value of \<^verbatim>\<open>self.crossover\<close>, the close
  \<^verbatim>\<open>self.data.close[0]\<close> and the equity \<^verbatim>\<open>self.broker.getvalue()\<close>. The result is
  the order handed to the framework, if any. The size is computed first, on every call,
  as in the source, so that an exception of line 31 is raised in every state; the two
  \<^verbatim>\<open>print\<close> calls are not modelled.
\<close>

definition SmaCross_next ::
  "params \<Rightarrow> int \<Rightarrow> pyfloat \<Rightarrow> pyfloat \<Rightarrow> pyfloat \<Rightarrow> py_error + order option" where
  "SmaCross_next p position crossover price equity =
     (case next_size equity price (percent p) of
        Inl e \<Rightarrow> Inl e
      | Inr sz \<Rightarrow>
          if position = 0 \<and> gt0 crossover then
            (if sz > 0 then Inr (Some (Buy sz)) else Inr None)
          else if position \<noteq> 0 \<and> lt0 crossover then Inr (Some (Sell position))
          else Inr None)"

text \<open>
  \<^verbatim>\<open>next\<close> reads the crossover indicator only through the two tests
  \<^verbatim>\<open>self.crossover > 0\<close> and \<^verbatim>\<open>self.crossover < 0\<close>: the signal of a bar.
\<close>

datatype signal = NONE | CROSS_UP | CROSS_DOWN

definition signal_of :: "pyfloat \<Rightarrow> signal" where
  "signal_of crossover =
     (if gt0 crossover then CROSS_UP else if lt0 crossover then CROSS_DOWN else NONE)"

text \<open>
  The strategy keeps no state of its own: its state is the truth value of
  \<^verbatim>\<open>self.position\<close>, flat when the position size is zero.
\<close>

datatype state = FLAT | LONG

definition state_of :: "int \<Rightarrow> state" where
  "state_of position = (if position = 0 then FLAT else LONG)"

text \<open>
  What \<^verbatim>\<open>next\<close> reads on one bar: \<^verbatim>\<open>self.crossover\<close>, \<^verbatim>\<open>self.data.close[0]\<close>
  and \<^verbatim>\<open>self.broker.getvalue()\<close>. The equity is an input, so that a statement about
  every sequence of ticks covers whatever the broker reports.
\<close>

record tick =
  tick_crossover :: pyfloat
  tick_close :: pyfloat
  tick_equity :: pyfloat

text \<open>
  Modelled from the spec: the event loop, which is the framework's (\<^verbatim>\<open>cerebro.run\<close>,
  not in the repository). It calls \<^verbatim>\<open>next\<close> once per bar, in order (spec 4.6), and an
  exception raised by \<^verbatim>\<open>next\<close> ends the run. What the framework's broker makes of an
  emitted order is not fixed here: the parameter \<open>broker\<close> gives, from the bar number, the
  position and the order, the position that \<^verbatim>\<open>next\<close> sees on the following bar (a
  full fill, a partial fill or a refusal); without an order the position stays. The run
  records, per bar, the position \<^verbatim>\<open>next\<close> saw and the order it emitted.
\<close>

fun run_next ::
  "(nat \<Rightarrow> int \<Rightarrow> order \<Rightarrow> int) \<Rightarrow> params \<Rightarrow> nat \<Rightarrow> int \<Rightarrow> tick list
     \<Rightarrow> py_error + (int \<times> order option) list" where
  "run_next broker p k position [] = Inr []"
| "run_next broker p k position (t # ts) =
     (case SmaCross_next p position (tick_crossover t) (tick_close t) (tick_equity t) of
        Inl e \<Rightarrow> Inl e
      | Inr ord \<Rightarrow>
          (case run_next broker p (Suc k)
                  (case ord of None \<Rightarrow> position | Some a \<Rightarrow> broker k position a) ts of
             Inl e \<Rightarrow> Inl e
           | Inr rest \<Rightarrow> Inr ((position, ord) # rest)))"

section \<open>The driver: \<^verbatim>\<open>run_backtest\<close> and the command line\<close>

text \<open>
  What step 2 of \<^verbatim>\<open>run_backtest\<close> (lines 70-78) configures on the framework's engine:
  the strategy with its parameters, the broker's cash and the broker's commission.
\<close>

record cerebro =
  strategy_params :: params
  broker_cash :: pyfloat
  broker_commission :: pyfloat

text \<open>
  The way a rejected configuration would show. The source raises nothing of the kind.
\<close>

datatype config_error = CONFIG_ERROR

text \<open>
  \<^verbatim>\<open>cerebro.addstrategy(SmaCross, percent=pct_to_invest)\<close>,
  \<^verbatim>\<open>cerebro.broker.setcash(cash)\<close>, \<^verbatim>\<open>cerebro.broker.setcommission(commission)\<close>:
  the three values are handed on as they are, the periods keep the defaults of
  \<^verbatim>\<open>SmaCross.params\<close>, and no statement of \<^verbatim>\<open>run_backtest\<close> tests a value. Loading
  the data (step 1) and plotting (step 4) are not modelled.
\<close>

definition run_backtest_setup :: "pyfloat \<Rightarrow> pyfloat \<Rightarrow> pyfloat \<Rightarrow> config_error + cerebro" where
  "run_backtest_setup pct_to_invest cash commission =
     Inr \<lparr>strategy_params = SmaCross_params\<lparr>percent := pct_to_invest\<rparr>,
          broker_cash = cash,
          broker_commission = commission\<rparr>"

text \<open>
  The numeric options of the command line (lines 110-121), each \<^verbatim>\<open>type=float\<close> with no
  \<^verbatim>\<open>choices\<close> and no range test: \<^verbatim>\<open>--pct\<close> (default 0.95), \<^verbatim>\<open>--cash\<close> (default
  100000) and \<^verbatim>\<open>--commission\<close> (default 0.001). The periods have no option.
\<close>

record args =
  arg_pct :: pyfloat
  arg_cash :: pyfloat
  arg_commission :: pyfloat

definition default_args :: args where
  "default_args =
     \<lparr>arg_pct = dbl (95 / 100), arg_cash = Fin 100000, arg_commission = dbl (1 / 1000)\<rparr>"

text \<open>The call of \<^verbatim>\<open>run_backtest\<close> in the main block (lines 127-135).\<close>

definition main_setup :: "args \<Rightarrow> config_error + cerebro" where
  "main_setup a = run_backtest_setup (arg_pct a) (arg_cash a) (arg_commission a)"

section \<open>Components of the framework, modelled from the spec\<close>

text \<open>
  The moving averages and the broker are the framework's (\<^verbatim>\<open>bt.ind.SMA\<close>,
  \<^verbatim>\<open>cerebro.broker\<close>); their code is not in the repository. The definitions of this
  section follow the words of the spec, whose prices and cash are exact (decimal) numbers:
  they are reals here.
\<close>

subsection \<open>Moving-average indicator (spec 4.1)\<close>

text \<open>
  Modelled from the spec: the state of one moving-average instance, "the window of the last
  N closing prices (N = period) and their running sum" (spec 3); the indicator itself is
  \<^verbatim>\<open>bt.ind.SMA\<close>, which the source only instantiates (lines 24-25).
\<close>

record indicator_state =
  period :: nat
  window :: "real list"
  running_sum :: real

text \<open>Modelled from the spec: "created at engine start with an empty window".\<close>

definition indicator_init :: "nat \<Rightarrow> indicator_state" where
  "indicator_init n = \<lparr>period = n, window = [], running_sum = 0\<rparr>"

text \<open>
  Modelled from the spec: \<^verbatim>\<open>observe(price) -> average | UNDEFINED\<close> of the missing
  indicator. The price enters the window and the sum; the oldest price is evicted once the
  window holds more than \<open>period\<close> prices; the result is the mean (sum over period) when
  the window holds \<open>period\<close> prices, and UNDEFINED (\<open>None\<close>) before.
\<close>

definition observe :: "indicator_state \<Rightarrow> real \<Rightarrow> indicator_state \<times> real option" where
  "observe st price =
     (let w = window st @ [price];
          s = running_sum st + price;
          st' = (if length w > period st
                 then st\<lparr>window := tl w, running_sum := s - hd w\<rparr>
                 else st\<lparr>window := w, running_sum := s\<rparr>)
      in (st', if length (window st') = period st'
               then Some (running_sum st' / real (period st')) else None))"

text \<open>
  Modelled from the spec: the indicator fed a price stream, one \<^verbatim>\<open>observe\<close> per bar, in
  order (spec 4.6, step 1); the list of its results.
\<close>

fun observe_all :: "indicator_state \<Rightarrow> real list \<Rightarrow> real option list" where
  "observe_all st [] = []"
| "observe_all st (x # xs) = (case observe st x of (st', out) \<Rightarrow> out # observe_all st' xs)"

text \<open>
  The invariant of the indicator after the prices \<open>h\<close>: the window is the last \<open>n\<close>
  prices of \<open>h\<close> (all of \<open>h\<close> while it is shorter) and the running sum is their sum.
\<close>

definition tracks :: "nat \<Rightarrow> indicator_state \<Rightarrow> real list \<Rightarrow> bool" where
  "tracks n st h \<longleftrightarrow>
     period st = n \<and> window st = drop (length h - n) h \<and> running_sum st = sum_list (window st)"

subsection \<open>Broker (spec 4.5)\<close>

text \<open>
  Modelled from the spec: Position, PortfolioState and TradeLogEntry of spec 3; the broker
  is the framework's \<^verbatim>\<open>cerebro.broker\<close>, to which the source only hands the cash and the
  commission (lines 77-78).
\<close>

record position =
  pos_size :: int
  pos_entry_price :: real

record portfolio =
  pf_cash :: real
  pf_position :: position
  pf_commission_rate :: real

text \<open>
  Modelled from the spec: the error of the missing broker's guard (spec 7), raised when an
  order's cost cannot be covered.
\<close>

datatype broker_error = INSUFFICIENT_FUNDS

text \<open>
  Modelled from the spec: the side of an executed order and the entry that the missing
  broker appends to the trade log, "timestamp, side, size, price, resulting_cash" (spec 3).
\<close>

datatype side = BUY | SELL

record trade_log_entry =
  tl_timestamp :: nat
  tl_side :: side
  tl_size :: int
  tl_price :: real
  tl_resulting_cash :: real

text \<open>
  Modelled from the spec: \<^verbatim>\<open>execute(order, price) -> TradeLogEntry\<close> of the missing
  broker. A BUY costs size times price plus the commission on that cost, needs that much
  cash or fails with INSUFFICIENT_FUNDS, and sets the position; a SELL adds the proceeds
  less the commission and clears the position. The timestamp of the log entry is the
  current bar's.
\<close>

definition execute ::
  "portfolio \<Rightarrow> nat \<Rightarrow> order \<Rightarrow> real \<Rightarrow> broker_error + portfolio \<times> trade_log_entry" where
  "execute pf ts ord price =
     (case ord of
        Buy n \<Rightarrow>
          (let cost = real_of_int n * price;
               commission = cost * pf_commission_rate pf
           in if pf_cash pf \<ge> cost + commission then
                (let c = pf_cash pf - (cost + commission)
                 in Inr (pf\<lparr>pf_cash := c,
                            pf_position := \<lparr>pos_size = n, pos_entry_price = price\<rparr>\<rparr>,
                         \<lparr>tl_timestamp = ts, tl_side = BUY, tl_size = n, tl_price = price,
                          tl_resulting_cash = c\<rparr>))
              else Inl INSUFFICIENT_FUNDS)
      | Sell n \<Rightarrow>
          (let proceeds = real_of_int n * price;
               commission = proceeds * pf_commission_rate pf;
               c = pf_cash pf + (proceeds - commission)
           in Inr (pf\<lparr>pf_cash := c,
                      pf_position := \<lparr>pos_size = 0, pos_entry_price = 0\<rparr>\<rparr>,
                   \<lparr>tl_timestamp = ts, tl_side = SELL, tl_size = n, tl_price = price,
                    tl_resulting_cash = c\<rparr>)))"

text \<open>
  Modelled from the spec: \<^verbatim>\<open>value(price) -> equity\<close>, cash plus position size times
  price; what \<^verbatim>\<open>self.broker.getvalue()\<close> stands for in \<^verbatim>\<open>next\<close>, where it enters
  the float arithmetic.
\<close>

definition portfolio_value :: "portfolio \<Rightarrow> real \<Rightarrow> real" where
  "portfolio_value pf price = pf_cash pf + real_of_int (pos_size (pf_position pf)) * price"

section \<open>Theorems\<close>

subsection \<open>Rounding to double precision\<close>

lemma expo_bounds:
  assumes "0 < x"
  shows "2 powi (expo x) \<le> x" and "x < 2 powi (expo x + 1)"
proof -
  have "2 powi (expo x) \<le> x \<and> x < 2 powi (expo x + 1)"
  proof (cases "1 \<le> x")
    case True
    define n where "n = \<lfloor>x\<rfloor>"
    from True have n: "0 < n" by (simp add: n_def)
    from bitlen_bounds [OF n] have lo: "2 ^ nat (bitlen n - 1) \<le> n" and hi: "n < 2 ^ nat (bitlen n)"
      by simp_all
    from n have b: "1 \<le> bitlen n" by (simp add: bitlen_alt_def)
    have e: "expo x = bitlen n - 1" using True by (simp add: expo_def n_def)
    from lo have "real_of_int (2 ^ nat (bitlen n - 1)) \<le> real_of_int n" by (rule of_int_le_iff [THEN iffD2])
    also have "real_of_int n \<le> x" by (simp add: n_def)
    finally have 1: "2 powi (expo x) \<le> x" using b e by (simp add: power_int_def)
    from hi have "n + 1 \<le> 2 ^ nat (bitlen n)" by simp
    then have "real_of_int (n + 1) \<le> real_of_int (2 ^ nat (bitlen n))" by (rule of_int_le_iff [THEN iffD2])
    moreover have "x < real_of_int (n + 1)" by (simp add: n_def)
    ultimately have 2: "x < 2 powi (expo x + 1)" using b e by (simp add: power_int_def)
    from 1 2 show ?thesis ..
  next
    case False
    define c where "c = \<lceil>1 / x\<rceil>"
    define b where "b = bitlen (c - 1)"
    from False assms have y: "1 < 1 / x" by simp
    then have c2: "2 \<le> c" unfolding c_def by (simp add: le_ceiling_iff)
    then have c1: "0 < c - 1" by simp
    from bitlen_bounds [OF c1] have lo: "2 ^ nat (b - 1) \<le> c - 1" and hi: "c - 1 < 2 ^ nat b"
      by (simp_all add: b_def)
    from c1 have b1: "1 \<le> b" by (simp add: b_def bitlen_alt_def)
    have e: "expo x = - b" using False by (simp add: expo_def b_def c_def)
    from hi have "c \<le> 2 ^ nat b" by simp
    then have "real_of_int c \<le> real_of_int (2 ^ nat b)" by (rule of_int_le_iff [THEN iffD2])
    moreover have "1 / x \<le> real_of_int c" by (simp add: c_def)
    ultimately have "1 / x \<le> 2 ^ nat b" unfolding of_int_power of_int_numeral by linarith
    with assms have "1 / 2 ^ nat b \<le> x"
      by (simp add: field_simps)
    then have 1: "2 powi (expo x) \<le> x" using b1 e by (simp add: power_int_def inverse_eq_divide power_one_over)
    from lo have "real_of_int (2 ^ nat (b - 1)) \<le> real_of_int (c - 1)" by (rule of_int_le_iff [THEN iffD2])
    moreover have "real_of_int (c - 1) < 1 / x" unfolding c_def by linarith
    ultimately have "2 ^ nat (b - 1) < 1 / x" unfolding of_int_power of_int_numeral by linarith
    with assms have "x < 1 / 2 ^ nat (b - 1)" by (simp add: field_simps)
    moreover have "(2::real) powi (expo x + 1) = 1 / 2 ^ nat (b - 1)"
    proof (cases "b = 1")
      case True
      with e show ?thesis by simp
    next
      case False
      with b1 have "expo x + 1 < 0" "nat (- (expo x + 1)) = nat (b - 1)" using e by simp_all
      then show ?thesis by (simp add: power_int_def inverse_eq_divide power_one_over)
    qed
    ultimately have 2: "x < 2 powi (expo x + 1)" by simp
    from 1 2 show ?thesis ..
  qed
  then show "2 powi (expo x) \<le> x" and "x < 2 powi (expo x + 1)" by simp_all
qed

lemma pow2_less_iff: "(2::real) powi a < 2 powi b \<longleftrightarrow> a < b"
proof
  assume l: "(2::real) powi a < 2 powi b"
  show "a < b"
  proof (rule ccontr)
    assume "\<not> a < b"
    then have "b \<le> a" by simp
    then have "(2::real) powi b \<le> 2 powi a" by (rule power_int_increasing) simp
    with l show False by simp
  qed
next
  assume "a < b"
  then show "(2::real) powi a < 2 powi b" by (rule power_int_strict_increasing) simp
qed

lemma pow2_le_iff: "(2::real) powi a \<le> 2 powi b \<longleftrightarrow> a \<le> b"
  using pow2_less_iff [of b a] by (simp add: not_less [symmetric])

lemma expo_unique:
  assumes "0 < x" and lo: "2 powi e \<le> x" and hi: "x < 2 powi (e + 1)"
  shows "expo x = e"
proof -
  from expo_bounds [OF assms(1)] have lo': "2 powi (expo x) \<le> x" and hi': "x < 2 powi (expo x + 1)" .
  from lo hi' have "(2::real) powi e < 2 powi (expo x + 1)" by simp
  then have 1: "e < expo x + 1" by (simp add: pow2_less_iff)
  from lo' hi have "(2::real) powi (expo x) < 2 powi (e + 1)" by simp
  then have 2: "expo x < e + 1" by (simp add: pow2_less_iff)
  from 1 2 show ?thesis by simp
qed


lemma round_half_even_of_int: "round_half_even (real_of_int k) = k"
  by (simp add: round_half_even_def)

lemma round_half_even_nonneg: "0 \<le> y \<Longrightarrow> 0 \<le> round_half_even y"
  by (auto simp: round_half_even_def Let_def)

lemma round_double_pos:
  assumes "0 < x" and "2 powi e \<le> x" and "x < 2 powi (e + 1)"
    and "round_half_even (x / 2 powi (max (e - 52) (- 1074))) = m"
    and "real_of_int m * 2 powi (max (e - 52) (- 1074)) < 2 powi 1024"
  shows "round_double x = Fin (real_of_int m * 2 powi (max (e - 52) (- 1074)))"
proof -
  from expo_unique [OF assms(1-3)] have "expo x = e" .
  with assms(1,4,5) show ?thesis
    by (simp add: round_double_def Let_def not_le [symmetric])
qed

lemma round_double_pos_overflow:
  assumes "0 < x" and "2 powi e \<le> x" and "x < 2 powi (e + 1)"
    and "round_half_even (x / 2 powi (max (e - 52) (- 1074))) = m"
    and "2 powi 1024 \<le> real_of_int m * 2 powi (max (e - 52) (- 1074))"
  shows "round_double x = PInf"
proof -
  from expo_unique [OF assms(1-3)] have "expo x = e" .
  with assms(1,4,5) show ?thesis
    by (simp add: round_double_def Let_def)
qed

lemma round_double_minus:
  "round_double (- x) = (case round_double x of Fin y \<Rightarrow> Fin (- y) | PInf \<Rightarrow> NInf
     | NInf \<Rightarrow> PInf | NaN \<Rightarrow> NaN)"
  by (simp add: round_double_def Let_def)

lemma round_double_nonneg:
  assumes "0 \<le> x"
  shows "(\<exists>y. round_double x = Fin y \<and> 0 \<le> y) \<or> round_double x = PInf"
proof (cases "x = 0")
  case True
  then show ?thesis by (simp add: round_double_def)
next
  case False
  with assms have x: "0 < x" by simp
  define q where "q = max (expo \<bar>x\<bar> - 52) (- 1074)"
  define y where "y = real_of_int (round_half_even (\<bar>x\<bar> / 2 powi q)) * 2 powi q"
  have "0 \<le> \<bar>x\<bar> / 2 powi q" by simp
  then have "0 \<le> round_half_even (\<bar>x\<bar> / 2 powi q)" by (rule round_half_even_nonneg)
  then have "0 \<le> y" by (simp add: y_def)
  moreover have "round_double x = (if 2 powi 1024 \<le> y then PInf else Fin y)"
    using x by (simp add: round_double_def Let_def q_def y_def)
  ultimately show ?thesis by simp
qed

lemma round_double_exact:
  assumes k: "\<bar>k\<bar> < 2 ^ 53" and j: "- 1074 \<le> j" and x: "x = real_of_int k * 2 powi j"
    and fin: "\<bar>x\<bar> < 2 powi 1024"
  shows "round_double x = Fin x"
proof (cases "x = 0")
  case True
  then show ?thesis by (simp add: round_double_def)
next
  case False
  define a where "a = \<bar>x\<bar>"
  define q where "q = max (expo a - 52) (- 1074)"
  from False have a: "0 < a" by (simp add: a_def)
  have a_eq: "a = real_of_int \<bar>k\<bar> * 2 powi j" by (simp add: a_def x abs_mult)
  from k have "real_of_int \<bar>k\<bar> < 2 ^ 53"
    by (metis of_int_less_numeral_power_cancel_iff)
  then have "a < 2 ^ 53 * 2 powi j" unfolding a_eq by (simp add: mult_strict_right_mono)
  also have "\<dots> = 2 powi (53 + j)" by (simp add: power_int_add)
  finally have "a < 2 powi (53 + j)" .
  with expo_bounds(1) [OF a] have "(2::real) powi (expo a) < 2 powi (53 + j)" by simp
  then have "expo a < 53 + j" by (simp add: pow2_less_iff)
  with j have qj: "q \<le> j" by (simp add: q_def)
  then have "(2::real) powi j = 2 powi (j - q) * 2 powi q" by (simp flip: power_int_add)
  moreover from qj have "(2::real) powi (j - q) = 2 ^ nat (j - q)" by (simp add: power_int_def)
  ultimately have pj: "(2::real) powi j = 2 ^ nat (j - q) * 2 powi q" by simp
  have "a / 2 powi q = real_of_int (\<bar>k\<bar> * 2 ^ nat (j - q))"
    unfolding a_eq pj by simp
  then have "round_half_even (a / 2 powi q) = \<bar>k\<bar> * 2 ^ nat (j - q)"
    by (simp only: round_half_even_of_int)
  then have y: "real_of_int (round_half_even (a / 2 powi q)) * 2 powi q = a"
    unfolding a_eq pj by simp
  from fin have "\<not> 2 powi 1024 \<le> a" by (simp add: a_def)
  with False y show ?thesis
    unfolding round_double_def Let_def a_def [symmetric] q_def [symmetric]
    by (auto simp: a_def)
qed

lemma round_double_int:
  assumes "\<bar>n\<bar> < 2 ^ 53"
  shows "round_double (real_of_int n) = Fin (real_of_int n)"
proof (rule round_double_exact [OF assms, of 0])
  show "\<bar>real_of_int n\<bar> < 2 powi 1024"
  proof -
    from assms have "real_of_int \<bar>n\<bar> < 2 ^ 53" by (metis of_int_less_numeral_power_cancel_iff)
    also have "(2::real) ^ 53 < 2 powi 1024" by simp
    finally show ?thesis by simp
  qed
qed simp_all

lemma round_half_even_le: "real_of_int (round_half_even z) \<le> z + 1 / 2"
proof -
  define k where "k = \<lfloor>z\<rfloor>"
  have lo: "real_of_int k \<le> z" and hi: "z < real_of_int k + 1"
    by (simp_all add: k_def)
  have "round_half_even z = k \<or> (round_half_even z = k + 1 \<and> 1 / 2 \<le> z - real_of_int k)"
    unfolding round_half_even_def Let_def k_def [symmetric] by auto
  with lo hi show ?thesis by auto
qed

lemma round_double_not_NaN: "round_double x \<noteq> NaN"
  by (simp add: round_double_def Let_def)

lemma round_double_nonpos:
  assumes "x \<le> 0" and "round_double x = Fin y"
  shows "y \<le> 0"
proof -
  from assms(1) have "0 \<le> - x" by simp
  from round_double_nonneg [OF this] assms(2) round_double_minus [of "- x"]
  show ?thesis by auto
qed

lemma round_double_rel:
  assumes x: "0 < x" and y: "round_double x = Fin y" and big: "2 powi (- 1021) \<le> y"
  shows "y \<le> x * (1 + 2 powi (- 53))"
proof -
  define q where "q = max (expo x - 52) (- 1074)"
  define m where "m = round_half_even (x / 2 powi q)"
  from x y have y_eq: "y = real_of_int m * 2 powi q"
    by (simp add: round_double_def Let_def q_def m_def split: if_splits)
  have pq: "(0::real) < 2 powi q" by simp
  from round_half_even_le [of "x / 2 powi q"]
  have "real_of_int m \<le> x / 2 powi q + 1 / 2" by (simp add: m_def)
  then have "real_of_int m * 2 powi q \<le> (x / 2 powi q + 1 / 2) * 2 powi q"
    using pq by (simp only: mult_le_cancel_right_pos)
  also have "\<dots> = x + 2 powi q / 2" using pq by (simp add: field_simps)
  finally have le: "y \<le> x + 2 powi q / 2" by (simp add: y_eq)
  have normal: "- 1074 \<le> expo x - 52"
  proof (rule ccontr)
    assume "\<not> - 1074 \<le> expo x - 52"
    then have e: "expo x + 1 \<le> - 1022" and q: "q = - 1074" by (simp_all add: q_def)
    from expo_bounds(2) [OF x] have "x < 2 powi (expo x + 1)" .
    also from e have "(2::real) powi (expo x + 1) \<le> 2 powi (- 1022)"
      by (rule pow2_le_iff [THEN iffD2])
    finally have "x < 2 powi (- 1022)" .
    with le q have "y < 2 powi (- 1022) + 2 powi (- 1074) / 2" by simp
    also have "\<dots> \<le> 2 powi (- 1021)"
    proof -
      have "(2::real) powi (- 1074) \<le> 2 powi (- 1022)"
        by (rule pow2_le_iff [THEN iffD2]) simp
      moreover have "(2::real) powi (- 1021) = 2 * 2 powi (- 1022)"
        using power_int_add [of "2::real" 1 "- 1022"] by simp
      moreover have "(0::real) < 2 powi (- 1074)" by simp
      ultimately show ?thesis by linarith
    qed
    finally show False using big by simp
  qed
  then have q: "q = expo x - 52" by (simp add: q_def)
  have "(2::real) powi q / 2 = 2 powi (expo x) * 2 powi (- 53)"
    using power_int_add [of "2::real" "expo x" "- 53"] power_int_add [of "2::real" q "- 1"] q
    by simp
  also have "\<dots> \<le> x * 2 powi (- 53)"
    using expo_bounds(1) [OF x] by (simp only: mult_le_cancel_right_pos zero_less_power_int zero_less_numeral)
  finally have "2 powi q / 2 \<le> x * 2 powi (- 53)" .
  with le show ?thesis by (simp add: algebra_simps)
qed

subsection \<open>The order size\<close>

lemma dbl_5179_8: "dbl (51798 / 10) = Fin (5695250329554125 / 1099511627776)"
  unfolding dbl_def
  using round_double_pos [of "51798 / 10" 12 5695250329554125]
  by (simp add: round_half_even_def)

lemma dbl_55_29: "dbl (5529 / 100) = Fin (7781375731166085 / 140737488355328)"
  unfolding dbl_def
  using round_double_pos [of "5529 / 100" 5 7781375731166085]
  by (simp add: round_half_even_def)

lemma dbl_0_95: "dbl (95 / 100) = Fin (4278419646001971 / 4503599627370496)"
  unfolding dbl_def
  using round_double_pos [of "95 / 100" "- 1" 8556839292003942]
  by (simp add: round_half_even_def)

lemma dbl_333_34: "dbl (33334 / 100) = Fin (5864179296045629 / 17592186044416)"
  unfolding dbl_def
  using round_double_pos [of "33334 / 100" 8 5864179296045629]
  by (simp add: round_half_even_def)

lemma dbl_0_3: "dbl (3 / 10) = Fin (5404319552844595 / 18014398509481984)"
  unfolding dbl_def
  using round_double_pos [of "3 / 10" "- 2" 5404319552844595]
  by (simp add: round_half_even_def)

lemma product_5179_8:
  "fmul (Fin (5695250329554125 / 1099511627776)) (Fin (4278419646001971 / 4503599627370496))
     = Fin (2705243906538209 / 549755813888)"
  using round_double_pos [of "5695250329554125 / 1099511627776 * (4278419646001971 / 4503599627370496)"
      12 5410487813076418]
  by (simp add: round_half_even_def)

lemma quotient_5179_8:
  "fdiv (Fin (2705243906538209 / 549755813888)) (Fin (7781375731166085 / 140737488355328))
     = Inr (Fin (6262818231812095 / 70368744177664))"
  using round_double_pos [of "2705243906538209 / 549755813888 / (7781375731166085 / 140737488355328)"
      6 6262818231812095]
  by (simp add: round_half_even_def)

lemma product_100000:
  "fmul (Fin 100000) (Fin (5404319552844595 / 18014398509481984)) = Fin 30000"
  using round_double_pos [of "100000 * (5404319552844595 / 18014398509481984)"
      14 8246337208320000]
  by (simp add: round_half_even_def)

lemma quotient_100000:
  "fdiv (Fin 30000) (Fin (5864179296045629 / 17592186044416))
     = Inr (Fin (6333060314783465 / 70368744177664))"
  using round_double_pos [of "30000 / (5864179296045629 / 17592186044416)"
      6 6333060314783465]
  by (simp add: round_half_even_def)


text \<open>
  With the defaults of the driver at a close of 200 the rounded product is exactly 95000,
  and the size is 475.
\<close>

lemma size_defaults_close_200: "next_size (Fin 100000) (Fin 200) (dbl (95 / 100)) = Inr 475"
proof -
  have "fmul (Fin 100000) (Fin (4278419646001971 / 4503599627370496)) = Fin 95000"
    using round_double_pos [of "100000 * (4278419646001971 / 4503599627370496)"
        16 6528350289920000]
    by (simp add: round_half_even_def)
  moreover have "fdiv (Fin 95000) (Fin 200) = Inr (Fin 475)"
    using round_double_int [of 475] by simp
  ultimately show ?thesis
    unfolding next_size_def dbl_0_95 by simp
qed

lemma next_size_nonneg:
  assumes "0 \<le> equity" and "0 < price" and "0 < fraction"
  shows "(\<exists>q. fdiv (fmul (Fin equity) (Fin fraction)) (Fin price) = Inr (Fin q) \<and> 0 \<le> q
            \<and> next_size (Fin equity) (Fin price) (Fin fraction) = Inr \<lfloor>q\<rfloor>)
       \<or> (fdiv (fmul (Fin equity) (Fin fraction)) (Fin price) = Inr PInf
            \<and> next_size (Fin equity) (Fin price) (Fin fraction) = Inl OverflowError)"
proof -
  from assms have "0 \<le> equity * fraction" by simp
  from round_double_nonneg [OF this]
  consider a where "fmul (Fin equity) (Fin fraction) = Fin a" "0 \<le> a"
    | "fmul (Fin equity) (Fin fraction) = PInf"
    by auto
  then show ?thesis
  proof cases
    case 1
    from 1(2) assms(2) have "0 \<le> a / price" by simp
    from round_double_nonneg [OF this]
    consider q where "round_double (a / price) = Fin q" "0 \<le> q"
      | "round_double (a / price) = PInf"
      by auto
    then show ?thesis
    proof cases
      case (1 q)
      with \<open>fmul (Fin equity) (Fin fraction) = Fin a\<close> assms(2) show ?thesis
        by (simp add: next_size_def)
    next
      case 2
      with \<open>fmul (Fin equity) (Fin fraction) = Fin a\<close> assms(2) show ?thesis
        by (simp add: next_size_def)
    qed
  next
    case 2
    with assms(2) show ?thesis by (simp add: next_size_def)
  qed
qed

lemma floor_or_overflow_Fin:
  assumes "(\<exists>q. X = Inr (Fin q) \<and> 0 \<le> q \<and> Y = Inr \<lfloor>q\<rfloor>)
       \<or> (X = Inr PInf \<and> Y = Inl OverflowError)"
    and "X = Inr (Fin v)"
  shows "Y = Inr \<lfloor>v\<rfloor>"
  using assms by auto

lemma floor_or_overflow_PInf:
  assumes "(\<exists>q. X = Inr (Fin q) \<and> 0 \<le> q \<and> Y = Inr \<lfloor>q\<rfloor>)
       \<or> (X = Inr PInf \<and> Y = Inl OverflowError)"
    and "X = Inr PInf"
  shows "Y = Inl OverflowError"
  using assms by auto

text \<open>
  Claim C2, as amended. For every equity \<open>\<ge> 0\<close>, price \<open>> 0\<close> and fraction in \<open>(0, 1]\<close>
  the size is the floor of the quotient as computed in double precision (the product
  rounded, then the quotient rounded), which is never negative, or the computation raises
  \<^verbatim>\<open>OverflowError\<close> when that quotient overflows; for equity 100000, price 333.34 and
  fraction 0.3 it returns exactly 89 shares, not 90.
\<close>

theorem next_size_is_floor:
  "(0 \<le> equity \<and> 0 < price \<and> 0 < fraction \<and> fraction \<le> 1 \<longrightarrow>
      (\<exists>q. fdiv (fmul (Fin equity) (Fin fraction)) (Fin price) = Inr (Fin q) \<and> 0 \<le> q
            \<and> next_size (Fin equity) (Fin price) (Fin fraction) = Inr \<lfloor>q\<rfloor>)
       \<or> (fdiv (fmul (Fin equity) (Fin fraction)) (Fin price) = Inr PInf
            \<and> next_size (Fin equity) (Fin price) (Fin fraction) = Inl OverflowError))
   \<and> next_size (Fin 100000) (dbl (33334 / 100)) (dbl (3 / 10)) = Inr 89
   \<and> next_size (Fin 100000) (dbl (33334 / 100)) (dbl (3 / 10)) \<noteq> Inr 90"
proof -
  have concrete: "next_size (Fin 100000) (dbl (33334 / 100)) (dbl (3 / 10)) = Inr 89"
    unfolding next_size_def dbl_333_34 dbl_0_3 product_100000 quotient_100000 by simp
  from next_size_nonneg concrete show ?thesis by simp
qed

text \<open>
  The size is not the floor of the exact quotient. At equity 5179.8, price 55.29 and
  fraction 0.95 the exact quotient is 89, also when taken of the three doubles, but the
  rounded product is below 4920.81 and the rounded quotient is below 89: the code
  returns 88.
\<close>

theorem next_size_exact_floor_counterexample:
  "next_size (dbl (51798 / 10)) (dbl (5529 / 100)) (dbl (95 / 100)) = Inr 88
   \<and> \<lfloor>(51798 / 10) * (95 / 100) / (5529 / 100) :: real\<rfloor> = 89
   \<and> dbl (51798 / 10) = Fin (5695250329554125 / 1099511627776)
   \<and> dbl (5529 / 100) = Fin (7781375731166085 / 140737488355328)
   \<and> dbl (95 / 100) = Fin (4278419646001971 / 4503599627370496)
   \<and> \<lfloor>(5695250329554125 / 1099511627776) * (4278419646001971 / 4503599627370496)
        / (7781375731166085 / 140737488355328) :: real\<rfloor> = 89"
proof -
  have "next_size (dbl (51798 / 10)) (dbl (5529 / 100)) (dbl (95 / 100)) = Inr 88"
    unfolding next_size_def dbl_5179_8 dbl_55_29 dbl_0_95 product_5179_8 quotient_5179_8
    by simp
  with dbl_5179_8 dbl_55_29 dbl_0_95 show ?thesis by simp
qed

theorem next_size_is_floor_witness:
  "(0::real) \<le> 1000 \<and> (0::real) < 30 \<and> (0::real) < 1 / 2 \<and> (1 / 2 :: real) \<le> 1
   \<and> fdiv (fmul (Fin 1000) (Fin (1 / 2))) (Fin 30)
       = Inr (Fin (4691249611844267 / 281474976710656))
   \<and> next_size (Fin 1000) (Fin 30) (Fin (1 / 2)) = Inr 16
   \<and> (0::real) \<le> 2 ^ 1023 \<and> (0::real) < 1 / 32 \<and> (0::real) < 1 \<and> (1::real) \<le> 1
   \<and> fdiv (fmul (Fin (2 ^ 1023)) (Fin 1)) (Fin (1 / 32)) = Inr PInf
   \<and> next_size (Fin (2 ^ 1023)) (Fin (1 / 32)) (Fin 1) = Inl OverflowError"
proof -
  have p: "fmul (Fin 1000) (Fin (1 / 2)) = Fin 500"
    using round_double_int [of 500] by simp
  have q: "fdiv (Fin 500) (Fin 30) = Inr (Fin (4691249611844267 / 281474976710656))"
    using round_double_pos [of "500 / 30" 4 4691249611844267]
    by (simp add: round_half_even_def)
  have p': "fmul (Fin (2 ^ 1023)) (Fin 1) = Fin (2 ^ 1023)"
    using round_double_exact [of 1 1023 "2 ^ 1023"] by simp
  have q': "fdiv (Fin (2 ^ 1023)) (Fin (1 / 32)) = Inr PInf"
    using round_double_pos_overflow [of "2 ^ 1023 / (1 / 32)" 1028 4503599627370496]
    by (simp add: round_half_even_def)
  have fd: "fdiv (fmul (Fin 1000) (Fin (1 / 2))) (Fin 30)
      = Inr (Fin (4691249611844267 / 281474976710656))"
    by (simp only: p q)
  have fd': "fdiv (fmul (Fin (2 ^ 1023)) (Fin 1)) (Fin (1 / 32)) = Inr PInf"
    by (simp only: p' q')
  have h: "(0::real) \<le> 1000 \<and> (0::real) < 30 \<and> (0::real) < 1 / 2 \<and> (1 / 2 :: real) \<le> 1"
    and h': "(0::real) \<le> 2 ^ 1023 \<and> (0::real) < 1 / 32 \<and> (0::real) < 1 \<and> (1::real) \<le> 1"
    by simp_all
  note d = next_size_is_floor [of 1000 30 "1 / 2", THEN conjunct1, THEN mp, OF h]
  from floor_or_overflow_Fin [OF d fd]
  have 1: "next_size (Fin 1000) (Fin 30) (Fin (1 / 2)) = Inr 16"
    by simp
  note d' = next_size_is_floor [of "2 ^ 1023" "1 / 32" 1, THEN conjunct1, THEN mp, OF h']
  from floor_or_overflow_PInf [OF d' fd']
  have 2: "next_size (Fin (2 ^ 1023)) (Fin (1 / 32)) (Fin 1) = Inl OverflowError" .
  from fd fd' 1 2 show ?thesis by simp
qed

subsection \<open>The strategy as a state machine\<close>

lemma gt0_not_lt0: "gt0 x \<Longrightarrow> \<not> lt0 x"
  by (cases x) auto

lemma next_buy:
  "SmaCross_next p position x price equity = Inr (Some (Buy n)) \<Longrightarrow>
     position = 0 \<and> gt0 x \<and> n > 0 \<and> next_size equity price (percent p) = Inr n"
  by (auto simp: SmaCross_next_def split: sum.splits if_splits)

lemma next_sell:
  "SmaCross_next p position x price equity = Inr (Some (Sell n)) \<Longrightarrow>
     position \<noteq> 0 \<and> lt0 x \<and> n = position"
  by (auto simp: SmaCross_next_def split: sum.splits if_splits)

lemma run_next_Cons:
  assumes "run_next broker p k position (t # ts) = Inr tr"
  obtains ord rest where
    "SmaCross_next p position (tick_crossover t) (tick_close t) (tick_equity t) = Inr ord"
    "run_next broker p (Suc k)
       (case ord of None \<Rightarrow> position | Some a \<Rightarrow> broker k position a) ts = Inr rest"
    "tr = (position, ord) # rest"
  using assms by (auto split: sum.splits)

lemma run_next_entries:
  "run_next broker p k position ts = Inr tr \<Longrightarrow> (q, ord) \<in> set tr \<Longrightarrow>
     (\<forall>n. ord = Some (Buy n) \<longrightarrow> state_of q = FLAT \<and> n > 0) \<and>
     (\<forall>n. ord = Some (Sell n) \<longrightarrow> state_of q = LONG \<and> n = q)"
proof (induction ts arbitrary: k position tr)
  case Nil
  then show ?case by simp
next
  case (Cons t ts)
  from Cons.prems(1) obtain o1 rest where
    step: "SmaCross_next p position (tick_crossover t) (tick_close t) (tick_equity t) = Inr o1" and
    rest: "run_next broker p (Suc k)
       (case o1 of None \<Rightarrow> position | Some a \<Rightarrow> broker k position a) ts = Inr rest" and
    tr: "tr = (position, o1) # rest"
    by (rule run_next_Cons)
  show ?case
  proof (cases "(q, ord) = (position, o1)")
    case True
    with step show ?thesis
      by (auto simp: state_of_def dest: next_buy next_sell)
  next
    case False
    with Cons.prems(2) tr have "(q, ord) \<in> set rest" by auto
    with Cons.IH [OF rest] show ?thesis by blast
  qed
qed

lemma run_next_hd:
  "run_next broker p k position ts = Inr tr \<Longrightarrow> tr \<noteq> [] \<Longrightarrow> fst (hd tr) = position"
  by (cases ts) (auto split: sum.splits)

lemma run_next_keeps:
  "run_next broker p k position ts = Inr tr \<Longrightarrow> Suc i < length tr \<Longrightarrow>
     snd (tr ! i) = None \<Longrightarrow> fst (tr ! Suc i) = fst (tr ! i)"
proof (induction ts arbitrary: k position tr i)
  case Nil
  then show ?case by simp
next
  case (Cons t ts)
  from Cons.prems(1) obtain o1 rest where
    rest: "run_next broker p (Suc k)
       (case o1 of None \<Rightarrow> position | Some a \<Rightarrow> broker k position a) ts = Inr rest" and
    tr: "tr = (position, o1) # rest"
    by (rule run_next_Cons)
  show ?case
  proof (cases i)
    case 0
    with Cons.prems(3) tr have o1: "o1 = None" by simp
    from 0 Cons.prems(2) tr have ne: "rest \<noteq> []" by auto
    from run_next_hd [OF rest ne] o1 have "fst (hd rest) = position" by simp
    with ne have "fst (rest ! 0) = position" by (simp add: hd_conv_nth)
    with 0 tr show ?thesis by simp
  next
    case (Suc j)
    with Cons.prems(2,3) tr have "Suc j < length rest" "snd (rest ! j) = None" by simp_all
    from Cons.IH [OF rest this] Suc tr show ?thesis by simp
  qed
qed

lemma next_flat_no_cross_up:
  "SmaCross_next p 0 x price equity = Inr ord \<Longrightarrow> signal_of x \<noteq> CROSS_UP \<Longrightarrow> ord = None"
  by (auto simp: SmaCross_next_def signal_of_def split: sum.splits if_splits)

lemma run_next_flat_quiet:
  "run_next broker p k 0 (later @ rest) = Inr tr \<Longrightarrow>
   \<forall>u \<in> set later. signal_of (tick_crossover u) \<noteq> CROSS_UP \<Longrightarrow>
   \<forall>e \<in> set (take (length later) tr). e = (0, None)"
proof (induction later arbitrary: k tr)
  case Nil
  then show ?case by simp
next
  case (Cons u later)
  from Cons.prems(1) obtain o1 more where
    step: "SmaCross_next p 0 (tick_crossover u) (tick_close u) (tick_equity u) = Inr o1" and
    more: "run_next broker p (Suc k)
       (case o1 of None \<Rightarrow> 0 | Some a \<Rightarrow> broker k 0 a) (later @ rest) = Inr more" and
    tr: "tr = (0, o1) # more"
    by (auto split: sum.splits)
  from step Cons.prems(2) have o1: "o1 = None"
    by (auto dest: next_flat_no_cross_up)
  with more have "run_next broker p (Suc k) 0 (later @ rest) = Inr more" by simp
  from Cons.IH [OF this] Cons.prems(2)
  have "\<forall>e \<in> set (take (length later) more). e = (0, None)" by simp
  with tr o1 show ?case by simp
qed

lemma size_half_1000_10: "next_size (Fin 1000) (Fin 10) (Fin (1 / 2)) = Inr 50"
  using round_double_int [of 500] round_double_int [of 50]
  by (simp add: next_size_def)

lemma size_half_50_100: "next_size (Fin 50) (Fin 100) (Fin (1 / 2)) = Inr 0"
  using round_double_int [of 25] round_double_exact [of 1 "- 2" "1 / 4"]
  by (simp add: next_size_def)

lemma size_three_halves_1000_10: "next_size (Fin 1000) (Fin 10) (Fin (3 / 2)) = Inr 150"
  using round_double_int [of 1500] round_double_int [of 150]
  by (simp add: next_size_def)

text \<open>
  Claim C1, as amended. The state of the strategy is the broker's position: FLAT when its
  size is zero, LONG otherwise; a run starts FLAT. On every bar where the size computation
  of line 31 returns a size: FLAT with CROSS_UP emits a BUY of that size when it is positive
  and no order otherwise; LONG with CROSS_DOWN emits a SELL of the whole position; every
  other pair of state and signal emits no order. When the size computation raises, \<^verbatim>\<open>next\<close>
  raises in every state and emits nothing. \<^verbatim>\<open>next\<close> changes no state: the position of
  the following bar is what the broker makes of the order, and it is unchanged after a bar
  with no order. In every run, whatever the broker does, a BUY is emitted only while FLAT
  and a SELL only while LONG, for the position held.
\<close>

theorem strategy_state_machine:
  "state_of 0 = FLAT
   \<and> (next_size equity price (percent p) = Inr sz \<longrightarrow>
        (state_of position = FLAT \<and> signal_of x = CROSS_UP \<and> 0 < sz \<longrightarrow>
           SmaCross_next p position x price equity = Inr (Some (Buy sz)))
      \<and> (state_of position = FLAT \<and> signal_of x = CROSS_UP \<and> sz \<le> 0 \<longrightarrow>
           SmaCross_next p position x price equity = Inr None)
      \<and> (state_of position = LONG \<and> signal_of x = CROSS_DOWN \<longrightarrow>
           SmaCross_next p position x price equity = Inr (Some (Sell position)))
      \<and> (\<not> (state_of position = FLAT \<and> signal_of x = CROSS_UP)
          \<and> \<not> (state_of position = LONG \<and> signal_of x = CROSS_DOWN) \<longrightarrow>
           SmaCross_next p position x price equity = Inr None))
   \<and> (next_size equity price (percent p) = Inl err \<longrightarrow>
        SmaCross_next p position x price equity = Inl err)
   \<and> (run_next broker p k start ts = Inr tr \<longrightarrow>
        (\<forall>e \<in> set tr.
           (\<forall>n. snd e = Some (Buy n) \<longrightarrow> state_of (fst e) = FLAT \<and> 0 < n)
         \<and> (\<forall>n. snd e = Some (Sell n) \<longrightarrow> state_of (fst e) = LONG \<and> n = fst e))
      \<and> (\<forall>i. Suc i < length tr \<and> snd (tr ! i) = None \<longrightarrow> fst (tr ! Suc i) = fst (tr ! i))
      \<and> (tr \<noteq> [] \<longrightarrow> fst (hd tr) = start))"
proof -
  have start: "state_of 0 = FLAT" by (simp add: state_of_def)
  have rows:
    "(state_of position = FLAT \<and> signal_of x = CROSS_UP \<and> 0 < sz \<longrightarrow>
           SmaCross_next p position x price equity = Inr (Some (Buy sz)))
      \<and> (state_of position = FLAT \<and> signal_of x = CROSS_UP \<and> sz \<le> 0 \<longrightarrow>
           SmaCross_next p position x price equity = Inr None)
      \<and> (state_of position = LONG \<and> signal_of x = CROSS_DOWN \<longrightarrow>
           SmaCross_next p position x price equity = Inr (Some (Sell position)))
      \<and> (\<not> (state_of position = FLAT \<and> signal_of x = CROSS_UP)
          \<and> \<not> (state_of position = LONG \<and> signal_of x = CROSS_DOWN) \<longrightarrow>
           SmaCross_next p position x price equity = Inr None)"
    if "next_size equity price (percent p) = Inr sz"
    using that
    by (auto simp: SmaCross_next_def state_of_def signal_of_def dest: gt0_not_lt0
        split: if_splits)
  have raises: "SmaCross_next p position x price equity = Inl err"
    if "next_size equity price (percent p) = Inl err"
    using that by (simp add: SmaCross_next_def)
  have trace:
    "(\<forall>e \<in> set tr.
           (\<forall>n. snd e = Some (Buy n) \<longrightarrow> state_of (fst e) = FLAT \<and> 0 < n)
         \<and> (\<forall>n. snd e = Some (Sell n) \<longrightarrow> state_of (fst e) = LONG \<and> n = fst e))
      \<and> (\<forall>i. Suc i < length tr \<and> snd (tr ! i) = None \<longrightarrow> fst (tr ! Suc i) = fst (tr ! i))
      \<and> (tr \<noteq> [] \<longrightarrow> fst (hd tr) = start)"
    if run: "run_next broker p k start ts = Inr tr"
  proof (intro conjI)
    show "\<forall>e \<in> set tr.
           (\<forall>n. snd e = Some (Buy n) \<longrightarrow> state_of (fst e) = FLAT \<and> 0 < n)
         \<and> (\<forall>n. snd e = Some (Sell n) \<longrightarrow> state_of (fst e) = LONG \<and> n = fst e)"
    proof
      fix e assume "e \<in> set tr"
      then have "(fst e, snd e) \<in> set tr" by simp
      from run_next_entries [OF run this]
      show "(\<forall>n. snd e = Some (Buy n) \<longrightarrow> state_of (fst e) = FLAT \<and> 0 < n)
         \<and> (\<forall>n. snd e = Some (Sell n) \<longrightarrow> state_of (fst e) = LONG \<and> n = fst e)" .
    qed
    show "\<forall>i. Suc i < length tr \<and> snd (tr ! i) = None \<longrightarrow> fst (tr ! Suc i) = fst (tr ! i)"
      using run_next_keeps [OF run] by blast
    show "tr \<noteq> [] \<longrightarrow> fst (hd tr) = start"
      using run_next_hd [OF run] by blast
  qed
  from start rows raises trace show ?thesis by blast
qed

text \<open>
  Two inputs where the claim as stated fails. LONG with CROSS_DOWN at a zero close: line 31
  divides by the close before the signal is looked at, so \<^verbatim>\<open>next\<close> raises and no SELL is
  emitted. And a BUY does not make the state LONG by itself: when the broker refuses the
  order, the state is still FLAT on the following bar and a second BUY is emitted.
\<close>

theorem strategy_state_machine_counterexample:
  "state_of 30 = LONG \<and> signal_of (Fin (- 1)) = CROSS_DOWN
   \<and> SmaCross_next SmaCross_params 30 (Fin (- 1)) (Fin 0) (Fin 1000) = Inl ZeroDivisionError
   \<and> run_next (\<lambda>k q a. q) \<lparr>pfast = 10, pslow = 30, percent = Fin (1 / 2)\<rparr> 0 0
        [\<lparr>tick_crossover = Fin 1, tick_close = Fin 10, tick_equity = Fin 1000\<rparr>,
         \<lparr>tick_crossover = Fin 1, tick_close = Fin 10, tick_equity = Fin 1000\<rparr>]
       = Inr [(0, Some (Buy 50)), (0, Some (Buy 50))]"
  by (simp add: state_of_def signal_of_def SmaCross_next_def next_size_def [of _ "Fin 0"]
      size_half_1000_10)

theorem strategy_state_machine_witness:
  "next_size (Fin 1000) (Fin 10) (percent \<lparr>pfast = 10, pslow = 30, percent = Fin (1 / 2)\<rparr>)
     = Inr 50
   \<and> state_of 0 = FLAT \<and> signal_of (Fin 1) = CROSS_UP \<and> (0::int) < 50
   \<and> SmaCross_next \<lparr>pfast = 10, pslow = 30, percent = Fin (1 / 2)\<rparr> 0 (Fin 1) (Fin 10)
        (Fin 1000) = Inr (Some (Buy 50))
   \<and> state_of 50 = LONG \<and> signal_of (Fin (- 1)) = CROSS_DOWN
   \<and> SmaCross_next \<lparr>pfast = 10, pslow = 30, percent = Fin (1 / 2)\<rparr> 50 (Fin (- 1)) (Fin 10)
        (Fin 1000) = Inr (Some (Sell 50))
   \<and> next_size (Fin 1000) (Fin 0) (percent \<lparr>pfast = 10, pslow = 30, percent = Fin (1 / 2)\<rparr>)
       = Inl ZeroDivisionError
   \<and> SmaCross_next \<lparr>pfast = 10, pslow = 30, percent = Fin (1 / 2)\<rparr> 50 (Fin (- 1)) (Fin 0)
        (Fin 1000) = Inl ZeroDivisionError
   \<and> run_next (\<lambda>k q a. case a of Buy n \<Rightarrow> n | Sell n \<Rightarrow> 0)
        \<lparr>pfast = 10, pslow = 30, percent = Fin (1 / 2)\<rparr> 0 0
        [\<lparr>tick_crossover = Fin 1, tick_close = Fin 10, tick_equity = Fin 1000\<rparr>,
         \<lparr>tick_crossover = Fin 1, tick_close = Fin 10, tick_equity = Fin 1000\<rparr>,
         \<lparr>tick_crossover = Fin (- 1), tick_close = Fin 10, tick_equity = Fin 1000\<rparr>]
       = Inr [(0, Some (Buy 50)), (50, None), (50, Some (Sell 50))]
   \<and> list_all (\<lambda>e. (\<forall>n. snd e = Some (Buy n) \<longrightarrow> state_of (fst e) = FLAT \<and> 0 < n)
                   \<and> (\<forall>n. snd e = Some (Sell n) \<longrightarrow> state_of (fst e) = LONG \<and> n = fst e))
        [(0, Some (Buy 50)), (50, None), (50, Some (Sell 50))]"
proof -
  let ?p = "\<lparr>pfast = 10, pslow = 30, percent = Fin (1 / 2)\<rparr>"
  let ?b = "\<lambda>(k::nat) (q::int) a. case a of Buy n \<Rightarrow> n | Sell n \<Rightarrow> 0"
  let ?ts = "[\<lparr>tick_crossover = Fin 1, tick_close = Fin 10, tick_equity = Fin 1000\<rparr>,
         \<lparr>tick_crossover = Fin 1, tick_close = Fin 10, tick_equity = Fin 1000\<rparr>,
         \<lparr>tick_crossover = Fin (- 1), tick_close = Fin 10, tick_equity = Fin 1000\<rparr>]"
  let ?tr = "[(0, Some (Buy 50)), (50, None), (50, Some (Sell 50))]"
  have sz: "next_size (Fin 1000) (Fin 10) (percent ?p) = Inr 50"
    by (simp add: size_half_1000_10)
  have zd: "next_size (Fin 1000) (Fin 0) (percent ?p) = Inl ZeroDivisionError"
    by (simp add: next_size_def)
  have run: "run_next ?b ?p 0 0 ?ts = Inr ?tr"
    by (simp add: SmaCross_next_def size_half_1000_10)
  have flat: "state_of 0 = FLAT" and long: "state_of 50 = LONG"
    and up: "signal_of (Fin 1) = CROSS_UP" and down: "signal_of (Fin (- 1)) = CROSS_DOWN"
    by (simp_all add: state_of_def signal_of_def)
  from strategy_state_machine [of "Fin 1000" "Fin 10" ?p 50 0 "Fin 1"] sz flat up
  have buy: "SmaCross_next ?p 0 (Fin 1) (Fin 10) (Fin 1000) = Inr (Some (Buy 50))"
    by simp
  from strategy_state_machine [of "Fin 1000" "Fin 10" ?p 50 50 "Fin (- 1)"] sz long down
  have sell: "SmaCross_next ?p 50 (Fin (- 1)) (Fin 10) (Fin 1000) = Inr (Some (Sell 50))"
    by simp
  from strategy_state_machine [of "Fin 1000" "Fin 0" ?p _ 50 "Fin (- 1)" ZeroDivisionError] zd
  have raise: "SmaCross_next ?p 50 (Fin (- 1)) (Fin 0) (Fin 1000) = Inl ZeroDivisionError"
    by simp
  from strategy_state_machine [of _ _ ?p _ _ _ _ ?b 0 0 ?ts ?tr] run
  have "\<forall>e \<in> set ?tr.
           (\<forall>n. snd e = Some (Buy n) \<longrightarrow> state_of (fst e) = FLAT \<and> 0 < n)
         \<and> (\<forall>n. snd e = Some (Sell n) \<longrightarrow> state_of (fst e) = LONG \<and> n = fst e)"
    by blast
  then have all: "list_all (\<lambda>e. (\<forall>n. snd e = Some (Buy n) \<longrightarrow> state_of (fst e) = FLAT \<and> 0 < n)
                   \<and> (\<forall>n. snd e = Some (Sell n) \<longrightarrow> state_of (fst e) = LONG \<and> n = fst e)) ?tr"
    by (simp only: list_all_iff)
  from sz flat long up down buy sell zd raise run all show ?thesis by simp
qed

text \<open>
  Claim C10. When the computed size on a CROSS_UP bar is not positive, the strategy emits
  no order on that bar, and none on any later bar before the next CROSS_UP, whatever the
  equity and the price of those bars are and whatever the broker would do with an order:
  the zero size is not retried.
\<close>

theorem zero_size_not_retried:
  assumes "signal_of (tick_crossover t) = CROSS_UP"
    and "next_size (tick_equity t) (tick_close t) (percent p) = Inr sz"
    and "sz \<le> 0"
    and "\<forall>u \<in> set later. signal_of (tick_crossover u) \<noteq> CROSS_UP"
    and "run_next broker p k 0 (t # later @ rest) = Inr tr"
  shows "\<forall>e \<in> set (take (Suc (length later)) tr). e = (0, None)"
proof -
  from assms(5) obtain o1 more where
    step: "SmaCross_next p 0 (tick_crossover t) (tick_close t) (tick_equity t) = Inr o1" and
    more: "run_next broker p (Suc k)
       (case o1 of None \<Rightarrow> 0 | Some a \<Rightarrow> broker k 0 a) (later @ rest) = Inr more" and
    tr: "tr = (0, o1) # more"
    by (auto split: sum.splits)
  from step assms(2,3) have o1: "o1 = None"
    by (auto simp: SmaCross_next_def split: if_splits)
  with more have "run_next broker p (Suc k) 0 (later @ rest) = Inr more" by simp
  from run_next_flat_quiet [OF this assms(4)]
  have "\<forall>e \<in> set (take (length later) more). e = (0, None)" .
  with tr o1 show ?thesis by simp
qed

theorem zero_size_not_retried_witness:
  "signal_of (Fin 1) = CROSS_UP
   \<and> next_size (Fin 50) (Fin 100) (percent \<lparr>pfast = 10, pslow = 30, percent = Fin (1 / 2)\<rparr>)
       = Inr 0
   \<and> signal_of (Fin 0) \<noteq> CROSS_UP \<and> signal_of (Fin (- 1)) \<noteq> CROSS_UP
   \<and> next_size (Fin 1000) (Fin 10) (percent \<lparr>pfast = 10, pslow = 30, percent = Fin (1 / 2)\<rparr>)
       = Inr 50
   \<and> run_next (\<lambda>k q a. case a of Buy n \<Rightarrow> n | Sell n \<Rightarrow> 0)
        \<lparr>pfast = 10, pslow = 30, percent = Fin (1 / 2)\<rparr> 0 0
        [\<lparr>tick_crossover = Fin 1, tick_close = Fin 100, tick_equity = Fin 50\<rparr>,
         \<lparr>tick_crossover = Fin 0, tick_close = Fin 10, tick_equity = Fin 1000\<rparr>,
         \<lparr>tick_crossover = Fin (- 1), tick_close = Fin 10, tick_equity = Fin 1000\<rparr>,
         \<lparr>tick_crossover = Fin 1, tick_close = Fin 10, tick_equity = Fin 1000\<rparr>]
       = Inr [(0, None), (0, None), (0, None), (0, Some (Buy 50))]
   \<and> list_all (\<lambda>e. e = (0, None))
        (take 3 [(0, None), (0, None), (0, None), (0, Some (Buy 50))])"
proof -
  let ?p = "\<lparr>pfast = 10, pslow = 30, percent = Fin (1 / 2)\<rparr>"
  let ?b = "\<lambda>(k::nat) (q::int) a. case a of Buy n \<Rightarrow> n | Sell n \<Rightarrow> 0"
  let ?t = "\<lparr>tick_crossover = Fin 1, tick_close = Fin 100, tick_equity = Fin 50\<rparr>"
  let ?later = "[\<lparr>tick_crossover = Fin 0, tick_close = Fin 10, tick_equity = Fin 1000\<rparr>,
         \<lparr>tick_crossover = Fin (- 1), tick_close = Fin 10, tick_equity = Fin 1000\<rparr>]"
  let ?rest = "[\<lparr>tick_crossover = Fin 1, tick_close = Fin 10, tick_equity = Fin 1000\<rparr>]"
  let ?tr = "[(0, None), (0, None), (0, None), (0, Some (Buy 50))]"
  have up: "signal_of (tick_crossover ?t) = CROSS_UP" by (simp add: signal_of_def)
  have sz: "next_size (tick_equity ?t) (tick_close ?t) (percent ?p) = Inr 0"
    by (simp add: size_half_50_100)
  have quiet: "\<forall>u \<in> set ?later. signal_of (tick_crossover u) \<noteq> CROSS_UP"
    by (simp add: signal_of_def)
  have pos: "next_size (Fin 1000) (Fin 10) (percent ?p) = Inr 50"
    by (simp add: size_half_1000_10)
  have run: "run_next ?b ?p 0 0 (?t # ?later @ ?rest) = Inr ?tr"
    by (simp add: SmaCross_next_def size_half_1000_10 size_half_50_100)
  from zero_size_not_retried [OF up sz _ quiet run]
  have "\<forall>e \<in> set (take (Suc (length ?later)) ?tr). e = (0, None)" by simp
  then have "list_all (\<lambda>e. e = (0, None))
        (take 3 [(0, None), (0, None), (0, None), (0, Some (Buy 50))])"
    by simp
  with up sz quiet pos run show ?thesis by (simp add: signal_of_def)
qed

subsection \<open>The driver validates nothing\<close>

lemma main_setup_default:
  "main_setup default_args =
     Inr \<lparr>strategy_params = \<lparr>pfast = 10, pslow = 30, percent = dbl (95 / 100)\<rparr>,
          broker_cash = Fin 100000, broker_commission = dbl (1 / 1000)\<rparr>"
  by (simp add: main_setup_def run_backtest_setup_def default_args_def SmaCross_params_def)

text \<open>
  A fraction of 1.5 and a commission of -0.001 pass the setup unchanged, and the fraction
  then acts at trade time: with an equity of 1000 and a price of 10, \<^verbatim>\<open>next\<close> orders
  150 shares.
\<close>

theorem config_not_rejected_counterexample:
  "main_setup \<lparr>arg_pct = Fin (3 / 2), arg_cash = Fin 1000, arg_commission = dbl (- 1 / 1000)\<rparr> =
     Inr \<lparr>strategy_params = \<lparr>pfast = 10, pslow = 30, percent = Fin (3 / 2)\<rparr>,
          broker_cash = Fin 1000, broker_commission = dbl (- 1 / 1000)\<rparr>
   \<and> main_setup \<lparr>arg_pct = Fin (3 / 2), arg_cash = Fin 1000, arg_commission = dbl (- 1 / 1000)\<rparr>
       \<noteq> Inl CONFIG_ERROR
   \<and> SmaCross_next \<lparr>pfast = 10, pslow = 30, percent = Fin (3 / 2)\<rparr> 0 (Fin 1) (Fin 10) (Fin 1000)
       = Inr (Some (Buy 150))"
  by (simp add: main_setup_def run_backtest_setup_def SmaCross_params_def SmaCross_next_def
      size_three_halves_1000_10)

text \<open>
  Claim C7, as amended. The setup rejects nothing: for every fraction, cash and commission
  of the command line, \<^verbatim>\<open>run_backtest\<close> hands the three values unchanged to the
  strategy and the broker, the periods are the defaults 10 and 30, and the size that
  \<^verbatim>\<open>next\<close> computes at trade time uses the fraction as given.
\<close>

theorem setup_accepts_every_value:
  "\<exists>c. main_setup a = Inr c
       \<and> run_backtest_setup (arg_pct a) (arg_cash a) (arg_commission a) = Inr c
       \<and> percent (strategy_params c) = arg_pct a
       \<and> pfast (strategy_params c) = 10 \<and> pslow (strategy_params c) = 30
       \<and> broker_cash c = arg_cash a \<and> broker_commission c = arg_commission a
       \<and> next_size equity price (percent (strategy_params c)) = next_size equity price (arg_pct a)"
  by (simp add: main_setup_def run_backtest_setup_def SmaCross_params_def)

subsection \<open>The moving average\<close>

lemma tracks_init: "tracks n (indicator_init n) []"
  by (simp add: tracks_def indicator_init_def)

lemma sum_list_tl: "w \<noteq> [] \<Longrightarrow> sum_list (tl w) = sum_list w - hd (w :: real list)"
  by (cases w) simp_all

lemma observe_tracks:
  assumes "0 < n" and "tracks n st h" and "observe st x = (st', out)"
  shows "tracks n st' (h @ [x])"
    and "out = (if length h + 1 < n then None
                else Some (sum_list (drop (length h + 1 - n) (h @ [x])) / real n))"
proof -
  from assms(2) have per: "period st = n"
    and win: "window st = drop (length h - n) h"
    and tot: "running_sum st = sum_list (window st)"
    by (simp_all add: tracks_def)
  show "tracks n st' (h @ [x])"
  proof (cases "length h < n")
    case True
    with assms(3) per win tot show ?thesis
      by (auto simp: observe_def Let_def tracks_def)
  next
    case False
    then have len: "length (window st) = n" using win by simp
    define k where "k = length h - n"
    from False assms(1) have k: "Suc k \<le> length h" "Suc (length h) - n = Suc k"
      by (simp_all add: k_def)
    from win have wk: "window st = drop k h" by (simp add: k_def)
    from k(1) have ne: "drop k h \<noteq> []" by simp
    then have "tl (drop k h @ [x]) = tl (drop k h) @ [x]" by simp
    also have "tl (drop k h) = drop (Suc k) h" by (simp add: drop_Suc drop_tl)
    also from k(1) have "drop (Suc k) h @ [x] = drop (Suc k) (h @ [x])" by simp
    finally have "tl (window st @ [x]) = drop (Suc (length h) - n) (h @ [x])"
      using wk k(2) by simp
    moreover from ne wk have "window st \<noteq> []" by simp
    ultimately have tl_eq: "tl (window st @ [x]) = drop (Suc (length h) - n) (h @ [x])"
      and nonempty: "window st @ [x] \<noteq> []" by simp_all
    have sum_eq: "sum_list (tl (window st @ [x])) = sum_list (window st) + x - hd (window st @ [x])"
      using sum_list_tl [OF nonempty] by simp
    from assms(3) per len have st': "st' = st\<lparr>window := tl (window st @ [x]),
        running_sum := running_sum st + x - hd (window st @ [x])\<rparr>"
      by (simp add: observe_def Let_def)
    show ?thesis
      unfolding tracks_def st' using per tot tl_eq sum_eq by simp
  qed
  then show "out = (if length h + 1 < n then None
                else Some (sum_list (drop (length h + 1 - n) (h @ [x])) / real n))"
    using assms(1,3) per win
    by (auto simp: observe_def Let_def tracks_def split: if_splits)
qed


lemma observe_all_nth:
  assumes "0 < n"
  shows "tracks n st h \<Longrightarrow> i < length xs \<Longrightarrow>
    observe_all st xs ! i =
      (if length h + i + 1 < n then None
       else Some (sum_list (drop (length h + i + 1 - n) (take (length h + i + 1) (h @ xs)))
                  / real n))"
proof (induction xs arbitrary: st h i)
  case Nil
  then show ?case by simp
next
  case (Cons x xs)
  obtain st' out where ob: "observe st x = (st', out)" by (cases "observe st x")
  from observe_tracks [OF assms Cons.prems(1) ob]
  have tr': "tracks n st' (h @ [x])"
    and out: "out = (if length h + 1 < n then None
                else Some (sum_list (drop (length h + 1 - n) (h @ [x])) / real n))"
    by simp_all
  show ?case
  proof (cases i)
    case 0
    with ob out show ?thesis by simp
  next
    case (Suc j)
    with Cons.prems(2) have j: "j < length xs" by simp
    from Cons.IH [OF tr' j] Suc ob show ?thesis by simp
  qed
qed

text \<open>
  Claim C3. For every price stream and every positive period \<open>n\<close>, the indicator is
  UNDEFINED on each of the first \<open>n - 1\<close> observations and, from the \<open>n\<close>-th on, returns
  the arithmetic mean of the last \<open>n\<close> prices observed.
\<close>

theorem moving_average_warm_up_and_mean:
  assumes "0 < n" and "i < length prices"
  shows "observe_all (indicator_init n) prices ! i =
           (if i + 1 < n then None
            else Some (sum_list (take n (drop (i + 1 - n) prices)) / real n))"
proof -
  from observe_all_nth [OF assms(1) tracks_init assms(2)]
  have "observe_all (indicator_init n) prices ! i =
      (if i + 1 < n then None
       else Some (sum_list (drop (i + 1 - n) (take (i + 1) prices)) / real n))"
    by simp
  moreover have "drop (i + 1 - n) (take (i + 1) prices) = take n (drop (i + 1 - n) prices)"
    if "\<not> i + 1 < n"
    using that by (simp add: drop_take)
  ultimately show ?thesis by simp
qed

theorem moving_average_warm_up_and_mean_witness:
  "(0::nat) < 3 \<and> (4::nat) < length [1, 2, 3, 4, 5 :: real]
   \<and> observe_all (indicator_init 3) [1, 2, 3, 4, 5] = [None, None, Some 2, Some 3, Some 4]
   \<and> observe_all (indicator_init 3) [1, 2, 3, 4, 5] ! 4 = Some ((3 + 4 + 5) / 3)
   \<and> observe_all (indicator_init 3) [1, 2, 3, 4, 5] ! 1 = None"
proof -
  have run: "observe_all (indicator_init 3) [1, 2, 3, 4, 5] = [None, None, Some 2, Some 3, Some 4]"
    by (simp add: indicator_init_def observe_def Let_def)
  have "observe_all (indicator_init 3) [1, 2, 3, 4, 5] ! 4
      = Some (sum_list (take 3 (drop (4 + 1 - 3) [1, 2, 3, 4, 5 :: real])) / real 3)"
    using moving_average_warm_up_and_mean [of 3 4 "[1, 2, 3, 4, 5]"] by simp
  moreover have "observe_all (indicator_init 3) [1, 2, 3, 4, 5] ! 1 = None"
    using moving_average_warm_up_and_mean [of 3 1 "[1, 2, 3, 4, 5]"] by simp
  ultimately show ?thesis using run by simp
qed

subsection \<open>The broker's guard and the sizing\<close>

lemma py_int_pos:
  assumes "py_int Q = Inr m" and "0 < m"
  obtains q where "Q = Fin q" and "1 \<le> q" and "real_of_int m \<le> q"
proof -
  from assms(1) obtain q where Q: "Q = Fin q" by (cases Q) auto
  with assms have q0: "0 \<le> q"
    by (cases "0 \<le> q") (auto simp: ceiling_le_iff not_le)
  with Q assms(1) have m: "m = \<lfloor>q\<rfloor>" by simp
  then have le: "real_of_int m \<le> q" by simp
  from assms(2) have "1 \<le> real_of_int m" by simp
  with le have "1 \<le> q" by linarith
  with Q le show ?thesis by (intro that)
qed

lemma margin_53_50: "(1 + 2 powi (- 53)) * (1 + 2 powi (- 53)) * (1 - 2 powi (- 50)) \<le> (1::real)"
  by simp

lemma sized_buy_affordable:
  assumes close: "2 powi (- 1000) \<le> close" and f: "0 < f"
    and r: "0 \<le> r" and fr: "f * (1 + r) \<le> 1 - 2 powi (- 50)"
    and sz: "next_size (Fin cash) (Fin close) (Fin f) = Inr m" and m: "0 < m"
    and fill: "0 < fill" "fill \<le> close"
  shows "real_of_int m * fill + real_of_int m * fill * r \<le> cash"
proof -
  define u :: real where "u = 2 powi (- 53)"
  define t :: real where "t = 1 - 2 powi (- 50)"
  have u: "0 < u" by (simp add: u_def)
  have "(0::real) < 2 powi (- 1000)" by simp
  with close have cpos: "0 < close" by linarith
  then have cne: "close \<noteq> 0" by simp
  obtain a where A: "round_double (cash * f) = Fin a"
  proof (cases "round_double (cash * f)")
    case (Fin a)
    then show ?thesis by (rule that)
  next
    case PInf
    with sz cpos show ?thesis by (simp add: next_size_def)
  next
    case NInf
    with sz cpos show ?thesis by (simp add: next_size_def)
  next
    case NaN
    with round_double_not_NaN show ?thesis by simp
  qed
  with sz cne have "py_int (round_double (a / close)) = Inr m"
    by (simp add: next_size_def)
  from py_int_pos [OF this m] obtain q where
    Q: "round_double (a / close) = Fin q" and q1: "1 \<le> q" and mq: "real_of_int m \<le> q"
    by blast
  have small: "(2::real) powi (- 1021) \<le> 2 powi (- 1001)" "(2::real) powi (- 1021) \<le> 1"
    using pow2_le_iff [of "- 1021" "- 1001"] pow2_le_iff [of "- 1021" 0] by simp_all
  have quot_pos: "0 < a / close"
  proof (rule ccontr)
    assume "\<not> 0 < a / close"
    then have "a / close \<le> 0" by simp
    from round_double_nonpos [OF this Q] q1 show False by simp
  qed
  with cpos have apos: "0 < a" by (simp add: zero_less_divide_iff)
  have prod_pos: "0 < cash * f"
  proof (rule ccontr)
    assume "\<not> 0 < cash * f"
    then have "cash * f \<le> 0" by simp
    from round_double_nonpos [OF this A] apos show False by simp
  qed
  with f have cash: "0 < cash" by (simp add: zero_less_mult_iff)
  from small(2) q1 have "2 powi (- 1021) \<le> q" by linarith
  from round_double_rel [OF quot_pos Q this]
  have "q \<le> a / close * (1 + u)" by (simp add: u_def)
  with cpos have qc: "q * close \<le> a * (1 + u)"
    by (simp add: field_simps)
  have two: "1 + u \<le> 2" by (simp add: u_def)
  from q1 cpos have "close \<le> q * close" by simp
  also note qc
  also from two apos have "a * (1 + u) \<le> a * 2" by simp
  finally have "close / 2 \<le> a" by simp
  moreover have "(2::real) powi (- 1001) = 2 powi (- 1000) / 2"
    using power_int_add [of "2::real" "- 1000" "- 1"] by simp
  ultimately have "2 powi (- 1001) \<le> a" using close by linarith
  with small(1) have "2 powi (- 1021) \<le> a" by linarith
  from round_double_rel [OF prod_pos A this]
  have a_le: "a \<le> cash * f * (1 + u)" by (simp add: u_def)
  from r have r1: "0 < 1 + r" by simp
  from m have mpos: "0 < real_of_int m" by simp
  from fill mpos have "real_of_int m * fill \<le> real_of_int m * close" by simp
  also from mq cpos have "\<dots> \<le> q * close" by simp
  also note qc
  also from a_le u have "a * (1 + u) \<le> cash * f * (1 + u) * (1 + u)" by simp
  finally have "real_of_int m * fill \<le> cash * f * (1 + u) * (1 + u)" .
  with r1 have "real_of_int m * fill * (1 + r) \<le> cash * f * (1 + u) * (1 + u) * (1 + r)"
    by simp
  also have "\<dots> = cash * ((1 + u) * (1 + u) * (f * (1 + r)))" by simp
  also have "\<dots> \<le> cash * ((1 + u) * (1 + u) * t)"
  proof -
    from u have "0 \<le> (1 + u) * (1 + u)" by simp
    with fr have "(1 + u) * (1 + u) * (f * (1 + r)) \<le> (1 + u) * (1 + u) * t"
      unfolding t_def by (rule mult_left_mono)
    moreover from cash have "0 \<le> cash" by simp
    ultimately show ?thesis by (rule mult_left_mono)
  qed
  also have "\<dots> \<le> cash * 1"
  proof -
    from margin_53_50 have "(1 + u) * (1 + u) * t \<le> 1" by (simp only: u_def t_def)
    moreover from cash have "0 \<le> cash" by simp
    ultimately show ?thesis by (rule mult_left_mono)
  qed
  finally show ?thesis by (simp add: algebra_simps)
qed


lemma size_one_1000_10: "next_size (Fin 1000) (Fin 10) (Fin 1) = Inr 100"
  using round_double_int [of 1000] round_double_int [of 100]
  by (simp add: next_size_def)

lemma size_negative: "next_size (Fin (- 1000)) (Fin 10) (Fin (- 1)) = Inr 100"
  using round_double_int [of 1000] round_double_int [of 100]
  by (simp add: next_size_def)

text \<open>
  Claim C8, as amended. The broker of spec 4.5 fails with INSUFFICIENT_FUNDS on a BUY whose
  cost plus commission exceeds the cash. A BUY that \<^verbatim>\<open>next\<close> sizes from the equity of
  the portfolio at a close of at least \<open>2 powi (- 1000)\<close> is covered, and the cash stays
  non-negative, when it is executed at a positive price no higher than that close, the
  fraction is positive, the commission rate is not negative and the fraction times
  (1 + commission rate) is at most \<open>1 - 2 powi (- 50)\<close>; the margin covers the two
  roundings of the size.
\<close>

theorem buy_guard_and_sizing:
  "(pf_cash pf < real_of_int n * fill + real_of_int n * fill * pf_commission_rate pf \<longrightarrow>
      execute pf ts (Buy n) fill = Inl INSUFFICIENT_FUNDS)
   \<and> (2 powi (- 1000) \<le> close \<and> 0 < fill \<and> fill \<le> close
       \<and> percent p = Fin f \<and> 0 < f \<and> 0 \<le> pf_commission_rate pf
       \<and> f * (1 + pf_commission_rate pf) \<le> 1 - 2 powi (- 50)
       \<and> SmaCross_next p (pos_size (pf_position pf)) x (Fin close)
            (Fin (portfolio_value pf close)) = Inr (Some (Buy m)) \<longrightarrow>
      (\<exists>pf' entry. execute pf ts (Buy m) fill = Inr (pf', entry)
         \<and> pf_cash pf' = pf_cash pf - real_of_int m * fill * (1 + pf_commission_rate pf)
         \<and> 0 \<le> pf_cash pf'))"
proof (intro conjI impI)
  assume "pf_cash pf < real_of_int n * fill + real_of_int n * fill * pf_commission_rate pf"
  then show "execute pf ts (Buy n) fill = Inl INSUFFICIENT_FUNDS"
    by (simp add: execute_def Let_def)
next
  assume a: "2 powi (- 1000) \<le> close \<and> 0 < fill \<and> fill \<le> close
       \<and> percent p = Fin f \<and> 0 < f \<and> 0 \<le> pf_commission_rate pf
       \<and> f * (1 + pf_commission_rate pf) \<le> 1 - 2 powi (- 50)
       \<and> SmaCross_next p (pos_size (pf_position pf)) x (Fin close)
            (Fin (portfolio_value pf close)) = Inr (Some (Buy m))"
  then have emitted:
    "SmaCross_next p (pos_size (pf_position pf)) x (Fin close)
       (Fin (portfolio_value pf close)) = Inr (Some (Buy m))" by (elim conjE)
  from a have pf: "percent p = Fin f" by (elim conjE)
  from next_buy [OF emitted]
  have flat: "pos_size (pf_position pf) = 0" and m: "0 < m"
    and "next_size (Fin (portfolio_value pf close)) (Fin close) (percent p) = Inr m"
    by simp_all
  with pf have sz: "next_size (Fin (pf_cash pf)) (Fin close) (Fin f) = Inr m"
    by (simp add: portfolio_value_def)
  from a have h: "2 powi (- 1000) \<le> close" "0 < f" "0 \<le> pf_commission_rate pf"
    "f * (1 + pf_commission_rate pf) \<le> 1 - 2 powi (- 50)"
    and fill: "0 < fill" "fill \<le> close"
    by blast+
  from sized_buy_affordable [OF h sz m fill]
  have le: "real_of_int m * fill + real_of_int m * fill * pf_commission_rate pf \<le> pf_cash pf" .
  then show "\<exists>pf' entry. execute pf ts (Buy m) fill = Inr (pf', entry)
         \<and> pf_cash pf' = pf_cash pf - real_of_int m * fill * (1 + pf_commission_rate pf)
         \<and> 0 \<le> pf_cash pf'"
    by (simp add: execute_def Let_def algebra_simps)
qed

text \<open>
  The failure is reached otherwise. With fraction 1 and commission rate 0.001, from a cash
  of 1000 at a close of 10, \<^verbatim>\<open>next\<close> orders 100 shares, which cost 1001. With fraction
  0.5 the 50 shares sized at a close of 10 are refused when executed at 30. With fraction
  -1 and a cash of -1000, \<^verbatim>\<open>next\<close> orders 100 shares, which the broker refuses.
\<close>

theorem sizing_reaches_insufficient_funds_counterexample:
  "SmaCross_next \<lparr>pfast = 10, pslow = 30, percent = Fin 1\<rparr> 0 (Fin 1) (Fin 10)
       (Fin (portfolio_value \<lparr>pf_cash = 1000, pf_position = \<lparr>pos_size = 0, pos_entry_price = 0\<rparr>,
                         pf_commission_rate = 1 / 1000\<rparr> 10))
     = Inr (Some (Buy 100))
   \<and> execute \<lparr>pf_cash = 1000, pf_position = \<lparr>pos_size = 0, pos_entry_price = 0\<rparr>,
               pf_commission_rate = 1 / 1000\<rparr> 0 (Buy 100) 10
     = Inl INSUFFICIENT_FUNDS
   \<and> SmaCross_next \<lparr>pfast = 10, pslow = 30, percent = Fin (1 / 2)\<rparr> 0 (Fin 1) (Fin 10)
       (Fin (portfolio_value \<lparr>pf_cash = 1000, pf_position = \<lparr>pos_size = 0, pos_entry_price = 0\<rparr>,
                         pf_commission_rate = 1 / 1000\<rparr> 10))
     = Inr (Some (Buy 50))
   \<and> execute \<lparr>pf_cash = 1000, pf_position = \<lparr>pos_size = 0, pos_entry_price = 0\<rparr>,
               pf_commission_rate = 1 / 1000\<rparr> 0 (Buy 50) 30
     = Inl INSUFFICIENT_FUNDS
   \<and> SmaCross_next \<lparr>pfast = 10, pslow = 30, percent = Fin (- 1)\<rparr> 0 (Fin 1) (Fin 10)
       (Fin (portfolio_value \<lparr>pf_cash = - 1000, pf_position = \<lparr>pos_size = 0, pos_entry_price = 0\<rparr>,
                         pf_commission_rate = 0\<rparr> 10))
     = Inr (Some (Buy 100))
   \<and> execute \<lparr>pf_cash = - 1000, pf_position = \<lparr>pos_size = 0, pos_entry_price = 0\<rparr>,
               pf_commission_rate = 0\<rparr> 0 (Buy 100) 10
     = Inl INSUFFICIENT_FUNDS"
  by (simp add: SmaCross_next_def portfolio_value_def execute_def Let_def
      size_one_1000_10 size_half_1000_10 size_negative)

theorem buy_guard_and_sizing_witness:
  "execute \<lparr>pf_cash = 1000, pf_position = \<lparr>pos_size = 0, pos_entry_price = 0\<rparr>,
            pf_commission_rate = 1 / 1000\<rparr> 7 (Buy 100) 10 = Inl INSUFFICIENT_FUNDS
   \<and> (2::real) powi (- 1000) \<le> 10 \<and> (0::real) < 9 \<and> (9::real) \<le> 10
   \<and> (1 / 2 :: real) * (1 + 1 / 1000) \<le> 1 - 2 powi (- 50)
   \<and> SmaCross_next \<lparr>pfast = 10, pslow = 30, percent = Fin (1 / 2)\<rparr> 0 (Fin 1) (Fin 10)
        (Fin (portfolio_value \<lparr>pf_cash = 1000, pf_position = \<lparr>pos_size = 0, pos_entry_price = 0\<rparr>,
                          pf_commission_rate = 1 / 1000\<rparr> 10))
      = Inr (Some (Buy 50))
   \<and> execute \<lparr>pf_cash = 1000, pf_position = \<lparr>pos_size = 0, pos_entry_price = 0\<rparr>,
              pf_commission_rate = 1 / 1000\<rparr> 7 (Buy 50) 9
      = Inr (\<lparr>pf_cash = 10991 / 20, pf_position = \<lparr>pos_size = 50, pos_entry_price = 9\<rparr>,
              pf_commission_rate = 1 / 1000\<rparr>,
             \<lparr>tl_timestamp = 7, tl_side = BUY, tl_size = 50, tl_price = 9,
              tl_resulting_cash = 10991 / 20\<rparr>)"
proof -
  let ?pf = "\<lparr>pf_cash = 1000, pf_position = \<lparr>pos_size = 0, pos_entry_price = 0\<rparr>,
            pf_commission_rate = 1 / 1000\<rparr>"
  let ?p = "\<lparr>pfast = 10, pslow = 30, percent = Fin (1 / 2)\<rparr>"
  have emit: "SmaCross_next ?p (pos_size (pf_position ?pf)) (Fin 1) (Fin 10)
      (Fin (portfolio_value ?pf 10)) = Inr (Some (Buy 50))"
    by (simp add: SmaCross_next_def portfolio_value_def size_half_1000_10)
  have short: "pf_cash ?pf < real_of_int 100 * 10 + real_of_int 100 * 10 * pf_commission_rate ?pf"
    by simp
  have side: "(2::real) powi (- 1000) \<le> 10" "(0::real) < 9" "(9::real) \<le> 10"
    "(1 / 2 :: real) * (1 + 1 / 1000) \<le> 1 - 2 powi (- 50)"
    by simp_all
  from buy_guard_and_sizing [where pf = ?pf and n = 100 and fill = 10 and ts = 7,
      THEN conjunct1] short
  have guard: "execute ?pf 7 (Buy 100) 10 = Inl INSUFFICIENT_FUNDS" by (rule mp)
  have hyp: "(2::real) powi (- 1000) \<le> 10 \<and> (0::real) < 9 \<and> (9::real) \<le> 10
       \<and> percent ?p = Fin (1 / 2) \<and> 0 < (1 / 2 :: real) \<and> 0 \<le> pf_commission_rate ?pf
       \<and> 1 / 2 * (1 + pf_commission_rate ?pf) \<le> 1 - 2 powi (- 50)
       \<and> SmaCross_next ?p (pos_size (pf_position ?pf)) (Fin 1) (Fin 10)
            (Fin (portfolio_value ?pf 10)) = Inr (Some (Buy 50))"
    using emit side by simp
  from buy_guard_and_sizing [where pf = ?pf and fill = 9 and ts = 7 and close = 10
      and p = ?p and f = "1 / 2" and x = "Fin 1" and m = 50, THEN conjunct2, THEN mp, OF hyp]
  have covered: "\<exists>pf' entry. execute ?pf 7 (Buy 50) 9 = Inr (pf', entry)
      \<and> pf_cash pf' = pf_cash ?pf - real_of_int 50 * 9 * (1 + pf_commission_rate ?pf)
      \<and> 0 \<le> pf_cash pf'" .
  have filled: "execute ?pf 7 (Buy 50) 9
      = Inr (\<lparr>pf_cash = 10991 / 20, pf_position = \<lparr>pos_size = 50, pos_entry_price = 9\<rparr>,
              pf_commission_rate = 1 / 1000\<rparr>,
             \<lparr>tl_timestamp = 7, tl_side = BUY, tl_size = 50, tl_price = 9,
              tl_resulting_cash = 10991 / 20\<rparr>)"
    by (simp add: execute_def Let_def)
  from guard covered emit filled side show ?thesis by simp
qed

end
